theory Spec2Isabelle
  imports Main "HOL-Library.Multiset"
begin

section \<open>Five Towers: data model (game_logic/state.py)\<close>

text \<open>
  The engine is Python. Integers are unbounded (\<open>int\<close>), lists are HOL lists with the
  bottom of a tower or the bottom of the deck first, and every exception the code can
  raise is a value of \<open>py_error\<close>: a function that may raise returns \<open>py_error + 'a\<close>.
  Mutation of the game state is explicit state passing.
\<close>

datatype py_error = IndexError | KeyError | ValueError | ZeroDivisionError

datatype TowerSuit = SAND | STONE | VEGETATION | WATER | FIRE

datatype GamePhase = LOBBY | BIDDING | BUILDING | SCORING | GAME_OVER

text \<open>A UUID is an opaque identity; only its equality is ever used.\<close>

type_synonym UUID = nat

record Card =
  card_id :: UUID
  card_suit :: TowerSuit
  card_value :: int

definition is_tower_top :: "Card \<Rightarrow> bool" where
  "is_tower_top c = (card_value c = 0)"

definition is_reset :: "Card \<Rightarrow> bool" where
  "is_reset c = (card_value c = 8)"

definition is_wild :: "Card \<Rightarrow> bool" where
  "is_wild c = (card_value c = 9)"

record Tower =
  tower_suit :: TowerSuit
  cards :: "Card list"

definition top_card :: "Tower \<Rightarrow> Card option" where
  "top_card t = (if cards t \<noteq> [] then Some (last (cards t)) else None)"

definition height :: "Tower \<Rightarrow> nat" where
  "height t = length (cards t)"

definition is_capped :: "Tower \<Rightarrow> bool" where
  "is_capped t = (case top_card t of None \<Rightarrow> False | Some c \<Rightarrow> is_tower_top c)"

text \<open>
  \<open>Tower.can_place\<close>: the branches in the order of the source. After the emptiness test
  \<open>top\<close> is the last card of the list.
\<close>

definition can_place :: "Tower \<Rightarrow> Card \<Rightarrow> bool" where
  "can_place t c =
     (if cards t = [] then True
      else let top = last (cards t) in
        if is_tower_top top then False
        else if is_reset top then True
        else if is_wild c then True
        else card_value c < card_value top)"

definition add_card :: "Tower \<Rightarrow> Card \<Rightarrow> py_error + Tower" where
  "add_card t c =
     (if \<not> can_place t c then Inl ValueError
      else Inr (t\<lparr>cards := cards t @ [c]\<rparr>))"

text \<open>\<open>Tower.tear_down\<close> returns the removed cards and leaves the tower empty.\<close>

definition tear_down :: "Tower \<Rightarrow> Card list \<times> Tower" where
  "tear_down t = (cards t, t\<lparr>cards := []\<rparr>)"

definition calculate_score :: "Tower \<Rightarrow> int" where
  "calculate_score t =
     (if cards t = [] then 0
      else let base_score = int (length (cards t)) in
        (case top_card t of
           Some c \<Rightarrow> if is_tower_top c then base_score * 2 else base_score
         | None \<Rightarrow> base_score))"

text \<open>
  \<open>PlayerState.towers\<close> is a dict keyed by suit: a map. \<open>towers[suit]\<close> raises KeyError
  on a missing key. Iterating over the dict's values visits the suits that are present;
  the sums and maxima taken over them do not depend on the order, and \<open>all_suits\<close> is the
  order of the enum, in which \<open>__post_init__\<close> inserts them.
\<close>

record PlayerState =
  player_id :: UUID
  name :: string
  towers :: "TowerSuit \<rightharpoonup> Tower"
  hand :: "Card list"
  tear_down_pile :: "Card list"
  current_bid :: "int option"
  has_passed :: bool

definition all_suits :: "TowerSuit list" where
  "all_suits = [SAND, STONE, VEGETATION, WATER, FIRE]"

definition tower_values :: "PlayerState \<Rightarrow> Tower list" where
  "tower_values p = List.map_filter (towers p) all_suits"

text \<open>\<open>PlayerState(id, name)\<close> with \<open>__post_init__\<close>: one empty tower for every suit.\<close>

definition new_player :: "UUID \<Rightarrow> string \<Rightarrow> PlayerState" where
  "new_player pid nm =
     \<lparr>player_id = pid, name = nm,
      towers = (\<lambda>s. Some \<lparr>tower_suit = s, cards = []\<rparr>),
      hand = [], tear_down_pile = [], current_bid = None, has_passed = False\<rparr>"

definition get_tower :: "PlayerState \<Rightarrow> TowerSuit \<Rightarrow> py_error + Tower" where
  "get_tower p s = (case towers p s of None \<Rightarrow> Inl KeyError | Some t \<Rightarrow> Inr t)"

definition calculate_penalty :: "PlayerState \<Rightarrow> int" where
  "calculate_penalty p = (let k = int (length (tear_down_pile p)) in k * (k + 1) div 2)"

text \<open>\<open>max(iterable, default=0)\<close> as the loop it is.\<close>

definition max_default :: "int \<Rightarrow> int list \<Rightarrow> int" where
  "max_default d xs = (case xs of [] \<Rightarrow> d | y # ys \<Rightarrow> fold max ys y)"

definition total_score :: "PlayerState \<Rightarrow> int" where
  "total_score p =
     (let tower_scores = sum_list (map calculate_score (tower_values p));
          max_height = max_default 0 (map (\<lambda>t. int (height t)) (tower_values p));
          tower_scores = (if max_height > 0 then tower_scores + max_height else tower_scores);
          penalty = calculate_penalty p
      in tower_scores - penalty)"

record GameState =
  phase :: GamePhase
  round_number :: int
  deck :: "Card list"
  display_cards :: "Card list"
  discard_pile :: "Card list"
  players :: "PlayerState list"
  current_player_index :: int
  current_high_bid :: int
  high_bidder_index :: "int option"
  auction_winner_index :: "int option"
  cards_to_process :: "Card list"

text \<open>\<open>GameState()\<close>: the defaults of the dataclass.\<close>

definition new_game_state :: GameState where
  "new_game_state =
     \<lparr>phase = LOBBY, round_number = 0, deck = [], display_cards = [], discard_pile = [],
      players = [], current_player_index = 0, current_high_bid = 0,
      high_bidder_index = None, auction_winner_index = None, cards_to_process = []\<rparr>"

subsection \<open>Python list indexing and slicing\<close>

text \<open>
  \<open>xs[i]\<close>: a negative index counts from the end, anything outside \<open>-n \<le> i < n\<close>
  raises IndexError. \<open>py_norm\<close> is the position an index denotes.
\<close>

definition py_norm :: "'a list \<Rightarrow> int \<Rightarrow> int" where
  "py_norm xs i = (if i < 0 then int (length xs) + i else i)"

definition py_get :: "'a list \<Rightarrow> int \<Rightarrow> py_error + 'a" where
  "py_get xs i =
     (let j = py_norm xs i in
      if 0 \<le> j \<and> j < int (length xs) then Inr (xs ! nat j) else Inl IndexError)"

text \<open>
  Writing a field of the object \<open>xs[i]\<close> changes the element at that position of the
  list; \<open>py_put\<close> stores the changed object back (used only after \<open>py_get\<close> succeeded).
\<close>

definition py_put :: "'a list \<Rightarrow> int \<Rightarrow> 'a \<Rightarrow> 'a list" where
  "py_put xs i v = xs[nat (py_norm xs i) := v]"

text \<open>\<open>xs[:k]\<close> and \<open>xs[k:]\<close>: the cut point of a negative \<open>k\<close> is counted from the end
  and clipped at 0.\<close>

definition py_cut :: "'a list \<Rightarrow> int \<Rightarrow> nat" where
  "py_cut xs k = (if k < 0 then nat (int (length xs) + k) else nat k)"

definition slice_to :: "'a list \<Rightarrow> int \<Rightarrow> 'a list" where
  "slice_to xs k = take (py_cut xs k) xs"

definition slice_from :: "'a list \<Rightarrow> int \<Rightarrow> 'a list" where
  "slice_from xs k = drop (py_cut xs k) xs"

subsection \<open>GameState methods\<close>

definition active_bidders :: "GameState \<Rightarrow> PlayerState list" where
  "active_bidders s = filter (\<lambda>p. \<not> has_passed p) (players s)"

text \<open>\<open>advance_turn\<close>: \<open>%\<close> by the number of players raises on an empty player list;
  for a positive modulus Python's \<open>%\<close> is \<open>mod\<close>.\<close>

definition advance_turn :: "GameState \<Rightarrow> py_error + GameState" where
  "advance_turn s =
     (if players s = [] then Inl ZeroDivisionError
      else Inr (s\<lparr>current_player_index :=
                   (current_player_index s + 1) mod int (length (players s))\<rparr>))"

text \<open>\<open>get_player_index\<close>: the first position whose player has the id, else ValueError.\<close>

fun find_player :: "PlayerState list \<Rightarrow> UUID \<Rightarrow> nat \<Rightarrow> py_error + int" where
  "find_player [] pid i = Inl ValueError"
| "find_player (p # ps) pid i =
     (if player_id p = pid then Inr (int i) else find_player ps pid (Suc i))"

definition get_player_index :: "GameState \<Rightarrow> UUID \<Rightarrow> py_error + int" where
  "get_player_index s pid = find_player (players s) pid 0"

definition is_valid_bid :: "GameState \<Rightarrow> int \<Rightarrow> bool" where
  "is_valid_bid s amount =
     (if amount \<le> current_high_bid s then False
      else if amount > 5 then False
      else True)"

section \<open>Rules (game_logic/rules.py)\<close>

definition can_bid :: "GameState \<Rightarrow> int \<Rightarrow> int \<Rightarrow> py_error + bool" where
  "can_bid s player_index amount =
     (if phase s \<noteq> BIDDING then Inr False
      else if current_player_index s \<noteq> player_index then Inr False
      else case py_get (players s) player_index of
        Inl e \<Rightarrow> Inl e
      | Inr player \<Rightarrow>
          if has_passed player then Inr False
          else if amount \<le> current_high_bid s then Inr False
          else if amount > 5 then Inr False
          else Inr True)"

definition can_pass :: "GameState \<Rightarrow> int \<Rightarrow> py_error + bool" where
  "can_pass s player_index =
     (if phase s \<noteq> BIDDING then Inr False
      else if current_player_index s \<noteq> player_index then Inr False
      else case py_get (players s) player_index of
        Inl e \<Rightarrow> Inl e
      | Inr player \<Rightarrow> if has_passed player then Inr False else Inr True)"

definition can_place_card :: "GameState \<Rightarrow> int \<Rightarrow> Card \<Rightarrow> TowerSuit \<Rightarrow> py_error + bool" where
  "can_place_card s player_index c suit =
     (if phase s \<noteq> BUILDING then Inr False
      else if auction_winner_index s \<noteq> Some player_index then Inr False
      else if c \<notin> set (cards_to_process s) then Inr False
      else case py_get (players s) player_index of
        Inl e \<Rightarrow> Inl e
      | Inr player \<Rightarrow>
          (case get_tower player suit of
             Inl e \<Rightarrow> Inl e
           | Inr tower \<Rightarrow> Inr (can_place tower c)))"

definition can_tear_down :: "GameState \<Rightarrow> int \<Rightarrow> TowerSuit \<Rightarrow> py_error + bool" where
  "can_tear_down s player_index suit =
     (if phase s \<noteq> BUILDING then Inr False
      else if auction_winner_index s \<noteq> Some player_index then Inr False
      else case py_get (players s) player_index of
        Inl e \<Rightarrow> Inl e
      | Inr player \<Rightarrow>
          (case get_tower player suit of
             Inl e \<Rightarrow> Inl e
           | Inr tower \<Rightarrow> Inr (height tower > 0)))"

definition is_bid_winning_bid :: "GameState \<Rightarrow> int \<Rightarrow> bool" where
  "is_bid_winning_bid s amount = (amount = 5)"

section \<open>Deck manager (game_logic/deck.py)\<close>

text \<open>
  \<open>random.shuffle\<close> is taken as a parameter \<open>sh\<close>: from the state \<open>'r\<close> of the random
  source and a list it gives the shuffled list and the next state of the source. The
  theorems assume of it only that it permutes its argument. \<open>uuid.uuid4\<close> is the
  parameter \<open>ids\<close>: the identity given to the \<open>k\<close>-th card created.
\<close>

type_synonym 'r shuffle = "'r \<Rightarrow> Card list \<Rightarrow> Card list \<times> 'r"

definition base_set :: "(TowerSuit \<times> int) list" where
  "base_set = concat (map (\<lambda>s. map (\<lambda>v. (s, v)) [0..15]) all_suits)"

definition expansion_set :: "(TowerSuit \<times> int) list" where
  "expansion_set =
     map (\<lambda>s. (s, 0)) all_suits @
     map (\<lambda>s. (s, 8)) all_suits @
     concat (map (\<lambda>s. [(s, 5), (s, 6), (s, 7), (s, 10)]) all_suits)"

definition make_cards :: "(nat \<Rightarrow> UUID) \<Rightarrow> (TowerSuit \<times> int) list \<Rightarrow> Card list" where
  "make_cards ids specs =
     map (\<lambda>(k, (s, v)). \<lparr>card_id = ids k, card_suit = s, card_value = v\<rparr>)
         (enumerate 0 specs)"

definition create_standard_deck ::
  "'r shuffle \<Rightarrow> 'r \<Rightarrow> (nat \<Rightarrow> UUID) \<Rightarrow> int \<Rightarrow> Card list \<times> 'r" where
  "create_standard_deck sh r ids num_players =
     sh r (make_cards ids (base_set @ (if num_players \<ge> 4 then expansion_set else [])))"

text \<open>
  The loop of \<open>deal_display_cards\<close>: up to \<open>count\<close> times (\<open>cnt\<close> below), pop the last card of the deck
  and append it to \<open>cards\<close>; stop when the deck is empty.
\<close>

fun deal_loop :: "nat \<Rightarrow> Card list \<Rightarrow> Card list \<Rightarrow> Card list \<times> Card list" where
  "deal_loop 0 d cs = (d, cs)"
| "deal_loop (Suc k) d cs =
     (if d \<noteq> [] then deal_loop k (butlast d) (cs @ [last d]) else (d, cs))"

definition deal_display_cards :: "GameState \<Rightarrow> int \<Rightarrow> Card list \<times> GameState" where
  "deal_display_cards s cnt =
     (case deal_loop (nat cnt) (deck s) [] of
        (d, cs) \<Rightarrow> (cs, s\<lparr>deck := d, display_cards := cs\<rparr>))"

definition shuffle_deck :: "'r shuffle \<Rightarrow> 'r \<Rightarrow> GameState \<Rightarrow> GameState \<times> 'r" where
  "shuffle_deck sh r s = (case sh r (deck s) of (d, r') \<Rightarrow> (s\<lparr>deck := d\<rparr>, r'))"

definition refill_deck_from_discard ::
  "'r shuffle \<Rightarrow> 'r \<Rightarrow> GameState \<Rightarrow> bool \<times> GameState \<times> 'r" where
  "refill_deck_from_discard sh r s =
     (if discard_pile s = [] then (False, s, r)
      else case shuffle_deck sh r (s\<lparr>deck := discard_pile s, discard_pile := []\<rparr>) of
        (s', r') \<Rightarrow> (True, s', r'))"

definition cards_remaining :: "GameState \<Rightarrow> nat" where
  "cards_remaining s = length (deck s)"

section \<open>Bidding controller (game_logic/phases/bidding.py)\<close>

definition discard_display_cards :: "GameState \<Rightarrow> GameState" where
  "discard_display_cards s =
     s\<lparr>discard_pile := discard_pile s @ display_cards s, display_cards := []\<rparr>"

definition start_new_round :: "GameState \<Rightarrow> GameState" where
  "start_new_round s =
     (let s1 = s\<lparr>players := map (\<lambda>p. p\<lparr>current_bid := None, has_passed := False\<rparr>) (players s),
                 current_high_bid := 0,
                 high_bidder_index := None,
                 auction_winner_index := None\<rparr>
      in case deal_display_cards s1 5 of
        (cs, s2) \<Rightarrow>
          if cs = [] then s2\<lparr>phase := GAME_OVER\<rparr>
          else s2\<lparr>phase := BIDDING, round_number := round_number s2 + 1\<rparr>)"

text \<open>
  \<open>end_auction\<close>. \<open>award\<close> is the part after the winner is known. \<open>current_bid or 0\<close>
  is 0 for \<open>None\<close> and for 0. The two statements after the \<open>if\<close> run on both of its
  branches.
\<close>

definition award :: "GameState \<Rightarrow> int \<Rightarrow> py_error + GameState" where
  "award s winner_index =
     (let s1 = s\<lparr>auction_winner_index := Some winner_index\<rparr> in
      case py_get (players s1) winner_index of
        Inl e \<Rightarrow> Inl e
      | Inr winner \<Rightarrow>
          let bid_amount = (case current_bid winner of None \<Rightarrow> 0 | Some b \<Rightarrow> b);
              s2 = (if bid_amount = 0 then start_new_round (discard_display_cards s1)
                    else s1\<lparr>cards_to_process := slice_to (display_cards s1) bid_amount,
                            discard_pile :=
                              discard_pile s1 @ slice_from (display_cards s1) bid_amount,
                            display_cards := []\<rparr>)
          in Inr (s2\<lparr>phase := BUILDING, current_player_index := winner_index\<rparr>))"

definition end_auction :: "GameState \<Rightarrow> int option \<Rightarrow> py_error + GameState" where
  "end_auction s winner_index =
     (case winner_index of
        Some w \<Rightarrow> award s w
      | None \<Rightarrow>
          (case high_bidder_index s of
             Some h \<Rightarrow> award s h
           | None \<Rightarrow>
               if length (active_bidders s) = 1 then
                 (case get_player_index s (player_id (hd (active_bidders s))) of
                    Inl e \<Rightarrow> Inl e
                  | Inr w \<Rightarrow> award s w)
               else Inr (discard_display_cards s)))"

text \<open>
  The loop of \<open>advance_bidding_turn\<close>, at most one iteration for each player: advance,
  stop at a player who has not passed, stop after a full circle.
\<close>

fun advance_loop :: "nat \<Rightarrow> int \<Rightarrow> GameState \<Rightarrow> py_error + GameState" where
  "advance_loop 0 original_player s = Inr s"
| "advance_loop (Suc k) original_player s =
     (case advance_turn s of
        Inl e \<Rightarrow> Inl e
      | Inr s1 \<Rightarrow>
          (case py_get (players s1) (current_player_index s1) of
             Inl e \<Rightarrow> Inl e
           | Inr p \<Rightarrow>
               if \<not> has_passed p then Inr s1
               else if current_player_index s1 = original_player then Inr s1
               else advance_loop k original_player s1))"

definition advance_bidding_turn :: "GameState \<Rightarrow> py_error + GameState" where
  "advance_bidding_turn s = advance_loop (length (players s)) (current_player_index s) s"

definition with_flag :: "bool \<Rightarrow> py_error + 'a \<Rightarrow> py_error + bool \<times> 'a" where
  "with_flag b m = (case m of Inl e \<Rightarrow> Inl e | Inr x \<Rightarrow> Inr (b, x))"

definition submit_bid :: "GameState \<Rightarrow> int \<Rightarrow> int \<Rightarrow> py_error + bool \<times> GameState" where
  "submit_bid s player_index amount =
     (case can_bid s player_index amount of
        Inl e \<Rightarrow> Inl e
      | Inr False \<Rightarrow> Inr (False, s)
      | Inr True \<Rightarrow>
          (case py_get (players s) player_index of
             Inl e \<Rightarrow> Inl e
           | Inr player \<Rightarrow>
               let s1 = s\<lparr>players := py_put (players s) player_index
                                        (player\<lparr>current_bid := Some amount\<rparr>),
                          current_high_bid := amount,
                          high_bidder_index := Some player_index\<rparr>
               in if is_bid_winning_bid s1 amount
                  then with_flag True (end_auction s1 (Some player_index))
                  else with_flag True (advance_bidding_turn s1)))"

definition submit_pass :: "GameState \<Rightarrow> int \<Rightarrow> py_error + bool \<times> GameState" where
  "submit_pass s player_index =
     (case can_pass s player_index of
        Inl e \<Rightarrow> Inl e
      | Inr False \<Rightarrow> Inr (False, s)
      | Inr True \<Rightarrow>
          (case py_get (players s) player_index of
             Inl e \<Rightarrow> Inl e
           | Inr player \<Rightarrow>
               let s1 = s\<lparr>players := py_put (players s) player_index
                                        (player\<lparr>has_passed := True\<rparr>)\<rparr>
               in if length (active_bidders s1) = 1
                  then (case get_player_index s1 (player_id (hd (active_bidders s1))) of
                          Inl e \<Rightarrow> Inl e
                        | Inr winner_idx \<Rightarrow> with_flag True (end_auction s1 (Some winner_idx)))
                  else with_flag True (advance_bidding_turn s1)))"

section \<open>Building controller (game_logic/phases/building.py)\<close>

definition end_building_phase :: "'r shuffle \<Rightarrow> 'r \<Rightarrow> GameState \<Rightarrow> GameState \<times> 'r" where
  "end_building_phase sh r s =
     (if cards_remaining s = 0 then
        (case refill_deck_from_discard sh r s of
           (refilled, s1, r1) \<Rightarrow>
             if \<not> refilled then (s1\<lparr>phase := GAME_OVER\<rparr>, r1)
             else (start_new_round s1, r1))
      else (start_new_round s, r))"

definition place_card ::
  "'r shuffle \<Rightarrow> 'r \<Rightarrow> GameState \<Rightarrow> int \<Rightarrow> Card \<Rightarrow> TowerSuit
     \<Rightarrow> py_error + bool \<times> GameState \<times> 'r" where
  "place_card sh r s player_index c suit =
     (case can_place_card s player_index c suit of
        Inl e \<Rightarrow> Inl e
      | Inr False \<Rightarrow> Inr (False, s, r)
      | Inr True \<Rightarrow>
          (case py_get (players s) player_index of
             Inl e \<Rightarrow> Inl e
           | Inr player \<Rightarrow>
               (case get_tower player suit of
                  Inl e \<Rightarrow> Inl e
                | Inr tower \<Rightarrow>
                    (case add_card tower c of
                       Inl e \<Rightarrow> Inl e
                     | Inr tower' \<Rightarrow>
                         let s1 = s\<lparr>players := py_put (players s) player_index
                                      (player\<lparr>towers := (towers player)(suit \<mapsto> tower')\<rparr>)\<rparr>;
                             s2 = (if c \<in> set (cards_to_process s1)
                                   then s1\<lparr>cards_to_process := remove1 c (cards_to_process s1)\<rparr>
                                   else s1)
                         in if length (cards_to_process s2) = 0
                            then (case end_building_phase sh r s2 of
                                    (s3, r3) \<Rightarrow> Inr (True, s3, r3))
                            else Inr (True, s2, r)))))"

definition tear_down_tower ::
  "GameState \<Rightarrow> int \<Rightarrow> TowerSuit \<Rightarrow> py_error + bool \<times> GameState" where
  "tear_down_tower s player_index suit =
     (case can_tear_down s player_index suit of
        Inl e \<Rightarrow> Inl e
      | Inr False \<Rightarrow> Inr (False, s)
      | Inr True \<Rightarrow>
          (case py_get (players s) player_index of
             Inl e \<Rightarrow> Inl e
           | Inr player \<Rightarrow>
               (case get_tower player suit of
                  Inl e \<Rightarrow> Inl e
                | Inr tower \<Rightarrow>
                    (case tear_down tower of
                       (removed_cards, tower') \<Rightarrow>
                         Inr (True,
                              s\<lparr>players := py_put (players s) player_index
                                  (player\<lparr>towers := (towers player)(suit \<mapsto> tower'),
                                          tear_down_pile :=
                                            tear_down_pile player @ removed_cards\<rparr>)\<rparr>)))))"

section \<open>Scoring engine (game_logic/scoring.py)\<close>

definition calculate_tower_score :: "Card list \<Rightarrow> int" where
  "calculate_tower_score tower_cards =
     (if tower_cards = [] then 0
      else let base_score = int (length tower_cards) in
        if card_value (last tower_cards) = 0 then base_score * 2 else base_score)"

text \<open>\<open>calculate_tower_bonus\<close> receives the card lists of the towers (the values of the
  dict the caller builds).\<close>

definition calculate_tower_bonus :: "Card list list \<Rightarrow> int" where
  "calculate_tower_bonus tower_lists =
     (let max_height = max_default 0 (map (\<lambda>cs. int (length cs)) tower_lists)
      in if max_height > 0 then max_height else 0)"

definition calculate_tear_down_penalty :: "int \<Rightarrow> int" where
  "calculate_tear_down_penalty tear_down_count =
     (if tear_down_count \<le> 0 then 0
      else tear_down_count * (tear_down_count + 1) div 2)"

text \<open>The accumulating loop over the towers is a fold from 0.\<close>

definition calculate_player_score :: "PlayerState \<Rightarrow> int" where
  "calculate_player_score player =
     (let tower_scores =
            fold (\<lambda>tower acc. acc + calculate_tower_score (cards tower)) (tower_values player) 0;
          bonus = calculate_tower_bonus (map cards (tower_values player));
          penalty = calculate_tear_down_penalty (int (length (tear_down_pile player)))
      in tower_scores + bonus - penalty)"

section \<open>The caller (env.py)\<close>

text \<open>\<open>str(i)\<close> for a natural number, used in the players' names.\<close>

fun str_nat :: "nat \<Rightarrow> string" where
  "str_nat n =
     (if n < 10 then [char_of (48 + n)]
      else str_nat (n div 10) @ [char_of (48 + n mod 10)])"

declare str_nat.simps [simp del]

text \<open>
  \<open>FiveTowersEnv.reset\<close>: a fresh state, the deck, the players \<open>0 .. num_players - 1\<close>,
  the first display row, phase Bidding, player 0 to move, round 1. \<open>start_game\<close> is
  all of it after the deck was built.
\<close>

definition start_game :: "Card list \<Rightarrow> int \<Rightarrow> GameState" where
  "start_game dk num_players =
     (let s0 = new_game_state\<lparr>deck := dk\<rparr>;
          s1 = s0\<lparr>players := players s0 @
                    map (\<lambda>i. new_player i (''Player'' @ str_nat i)) [0..<nat num_players]\<rparr>
      in case deal_display_cards s1 5 of
           (cs, s2) \<Rightarrow> s2\<lparr>phase := BIDDING, current_player_index := 0, round_number := 1\<rparr>)"


text \<open>
  The caller drives a game by the four operations of the controllers, one at a time; a
  rejected action leaves the state as it is and the game goes on, an exception ends it.
\<close>

datatype action =
    Bid int int
  | Pass int
  | Place int Card TowerSuit
  | TearDown int TowerSuit

definition keep_rng :: "'r \<Rightarrow> py_error + bool \<times> GameState \<Rightarrow> py_error + bool \<times> GameState \<times> 'r" where
  "keep_rng r m = (case m of Inl e \<Rightarrow> Inl e | Inr (ok, s) \<Rightarrow> Inr (ok, s, r))"

fun step :: "'r shuffle \<Rightarrow> 'r \<Rightarrow> GameState \<Rightarrow> action \<Rightarrow> py_error + bool \<times> GameState \<times> 'r" where
  "step sh r s (Bid p amount) = keep_rng r (submit_bid s p amount)"
| "step sh r s (Pass p) = keep_rng r (submit_pass s p)"
| "step sh r s (Place p c suit) = place_card sh r s p c suit"
| "step sh r s (TearDown p suit) = keep_rng r (tear_down_tower s p suit)"

fun run :: "'r shuffle \<Rightarrow> 'r \<Rightarrow> GameState \<Rightarrow> action list \<Rightarrow> py_error + GameState \<times> 'r" where
  "run sh r s [] = Inr (s, r)"
| "run sh r s (a # as) =
     (case step sh r s a of
        Inl e \<Rightarrow> Inl e
      | Inr (ok, s', r') \<Rightarrow> run sh r' s' as)"

section \<open>Measures and invariants of a game\<close>

text \<open>The tower of suit \<open>suit\<close> of the player at position \<open>i\<close>.\<close>

definition tower_of :: "GameState \<Rightarrow> nat \<Rightarrow> TowerSuit \<Rightarrow> Tower option" where
  "tower_of s i suit = (if i < length (players s) then towers (players s ! i) suit else None)"

text \<open>
  The action tears down the tower of suit \<open>suit\<close> of the player at position \<open>i\<close> in
  the state \<open>s\<close>: it is a tear-down of that suit, its player index denotes position
  \<open>i\<close>, and the rules allow it. \<open>torn_down_in\<close> says that some action of a sequence
  run from \<open>s\<close> does so in the state it is applied to.
\<close>

fun tears_down :: "GameState \<Rightarrow> nat \<Rightarrow> TowerSuit \<Rightarrow> action \<Rightarrow> bool" where
  "tears_down s i suit (TearDown p su) =
     (su = suit \<and> py_norm (players s) p = int i \<and> can_tear_down s p su = Inr True)"
| "tears_down s i suit _ = False"

fun torn_down_in ::
  "'r shuffle \<Rightarrow> 'r \<Rightarrow> GameState \<Rightarrow> nat \<Rightarrow> TowerSuit \<Rightarrow> action list \<Rightarrow> bool" where
  "torn_down_in sh r s i suit [] = False"
| "torn_down_in sh r s i suit (a # as) =
     (tears_down s i suit a \<or>
      (case step sh r s a of
         Inl e \<Rightarrow> False
       | Inr (ok, s', r') \<Rightarrow> torn_down_in sh r' s' i suit as))"

text \<open>The cards a player holds: the towers and the tear-down pile.\<close>

definition holdings :: "PlayerState \<Rightarrow> (TowerSuit \<rightharpoonup> Tower) \<times> Card list" where
  "holdings p = (towers p, tear_down_pile p)"

definition player_cards :: "PlayerState \<Rightarrow> nat" where
  "player_cards p =
     sum_list (map (\<lambda>t. length (cards t)) (tower_values p)) + length (tear_down_pile p)"

text \<open>The number of cards in the deck, the discard pile, the display row, all towers
  and tear-down piles of all players, and \<open>cards_to_process\<close>.\<close>

definition total_cards :: "GameState \<Rightarrow> nat" where
  "total_cards s =
     length (deck s) + length (discard_pile s) + length (display_cards s)
     + sum_list (map player_cards (players s)) + length (cards_to_process s)"

text \<open>
  What the controllers rely on when they overwrite a list: no cards are pending while
  bids are taken, and the display row is empty while an auction winner builds.
\<close>

definition pending_ok :: "GameState \<Rightarrow> bool" where
  "pending_ok s =
     ((phase s = BIDDING \<longrightarrow> cards_to_process s = [])
      \<and> (phase s = BUILDING \<and> auction_winner_index s \<noteq> None \<longrightarrow> display_cards s = []))"

text \<open>
  The auction state of a running game: the high bid is not negative, the turn pointer
  is the position of a player, and a bid that is set is at least 1.
\<close>

definition auction_wf :: "GameState \<Rightarrow> bool" where
  "auction_wf s =
     (0 \<le> current_high_bid s \<and> 0 \<le> current_player_index s
      \<and> current_player_index s < int (length (players s))
      \<and> (\<forall>pl\<in>set (players s). case current_bid pl of None \<Rightarrow> True | Some b \<Rightarrow> 1 \<le> b))"

section \<open>Concrete games\<close>

text \<open>A random source that leaves every list as it is, and identities \<open>0, 1, 2, \<dots>\<close>.\<close>

definition no_shuffle :: "unit shuffle" where
  "no_shuffle r xs = (xs, r)"

text \<open>A deck of twelve cards, bottom first; the display row is dealt from its end.\<close>

definition small_deck :: "Card list" where
  "small_deck = make_cards (\<lambda>k. k)
     [(SAND, 3), (STONE, 8), (WATER, 12), (VEGETATION, 1), (SAND, 15), (STONE, 4),
      (FIRE, 7), (WATER, 2), (SAND, 14), (WATER, 9), (FIRE, 0), (FIRE, 5)]"

definition fire5 :: Card where
  "fire5 = \<lparr>card_id = 11, card_suit = FIRE, card_value = 5\<rparr>"

definition fire0 :: Card where
  "fire0 = \<lparr>card_id = 10, card_suit = FIRE, card_value = 0\<rparr>"

definition water9 :: Card where
  "water9 = \<lparr>card_id = 9, card_suit = WATER, card_value = 9\<rparr>"

text \<open>A two-player game on the small deck, as \<open>reset\<close> leaves it: 7 cards in the
  deck, 5 on display.\<close>

definition game2 :: GameState where
  "game2 = start_game small_deck 2"


text \<open>The same game inside \<open>submit_pass(state, 0)\<close>, after player 0 was marked as passed.\<close>

definition game2_passed :: GameState where
  "game2_passed =
     game2\<lparr>players := py_put (players game2) 0 ((players game2 ! 0)\<lparr>has_passed := True\<rparr>)\<rparr>"

text \<open>The same game with every player marked as passed and nobody having bid.\<close>

definition game2_all_passed :: GameState where
  "game2_all_passed = game2\<lparr>players := map (\<lambda>p. p\<lparr>has_passed := True\<rparr>) (players game2)\<rparr>"

text \<open>The same game after player 0 has bid 5 and won the whole display row.\<close>

definition game2_won :: GameState where
  "game2_won = snd (projr (submit_bid game2 0 5))"

text \<open>The player of the scoring test: sand \<open>[10, 5]\<close>, fire \<open>[8, 3, 0]\<close>.\<close>

definition demo_player :: PlayerState where
  "demo_player = (new_player 0 ''Test'')\<lparr>
     towers := (towers (new_player 0 ''Test''))
       (SAND \<mapsto> \<lparr>tower_suit = SAND, cards =
           [\<lparr>card_id = 1, card_suit = SAND, card_value = 10\<rparr>,
            \<lparr>card_id = 2, card_suit = SAND, card_value = 5\<rparr>]\<rparr>,
        FIRE \<mapsto> \<lparr>tower_suit = FIRE, cards =
           [\<lparr>card_id = 3, card_suit = FIRE, card_value = 8\<rparr>,
            \<lparr>card_id = 4, card_suit = FIRE, card_value = 3\<rparr>,
            \<lparr>card_id = 5, card_suit = FIRE, card_value = 0\<rparr>]\<rparr>)\<rparr>"


definition sand14 :: Card where
  "sand14 = \<lparr>card_id = 8, card_suit = SAND, card_value = 14\<rparr>"

definition water2 :: Card where
  "water2 = \<lparr>card_id = 7, card_suit = WATER, card_value = 2\<rparr>"

definition fire7 :: Card where
  "fire7 = \<lparr>card_id = 6, card_suit = FIRE, card_value = 7\<rparr>"

text \<open>Player 0 has won the row and built the fire tower \<open>[5, 0]\<close>, which is capped.\<close>

definition game_capped :: GameState where
  "game_capped =
     fst (projr (run no_shuffle () game2 [Bid 0 5, Place 0 fire5 FIRE, Place 0 fire0 FIRE]))"

definition fire_capped :: Tower where
  "fire_capped = \<lparr>tower_suit = FIRE, cards = [fire5, fire0]\<rparr>"

text \<open>The same game after player 0 has torn the fire tower down.\<close>

definition game_torn :: GameState where
  "game_torn = snd (projr (tear_down_tower game_capped 0 FIRE))"

text \<open>
  What follows in \<open>game_capped\<close> without a tear-down of the fire tower of player 0: a
  rejected placement on the capped tower; player 0 places the other three cards, which
  starts the next round; player 0 bids 1, player 1 bids 5 and wins the row, builds a
  fire tower and tears it down; a tear-down of the fire tower of player 0 is asked for
  and rejected, player 1 being the one who builds.
\<close>

definition later_actions :: "action list" where
  "later_actions =
     [Place 0 water9 FIRE, Place 0 water9 WATER, Place 0 sand14 SAND, Place 0 water2 WATER,
      Bid 0 1, Bid 1 5, Place 1 fire7 FIRE, TearDown 1 FIRE, TearDown 0 FIRE]"


text \<open>\<open>game2\<close> after player 0 has bid 3 and player 1 has passed: player 0 builds with
  three cards, two cards are in the discard pile and seven in the deck.\<close>

definition game2_bid3 :: GameState where
  "game2_bid3 = fst (projr (run no_shuffle () game2 [Bid 0 3, Pass 1]))"

section \<open>Properties\<close>

subsection \<open>Python lists\<close>

lemma py_get_put:
  "py_get xs i = Inr x \<Longrightarrow> py_get (py_put xs i v) i = Inr v"
  by (auto simp: py_get_def py_put_def py_norm_def Let_def split: if_splits)

subsection \<open>Scoring\<close>

lemma fold_add_sum: "fold (\<lambda>t acc. acc + f t) xs (a::int) = a + sum_list (map f xs)"
  by (induction xs arbitrary: a) simp_all

lemma max_default_Max: "max_default 0 xs = (if xs = [] then 0 else Max (set xs))"
  by (cases xs) (simp_all add: max_default_def Max.set_eq_fold[symmetric])

lemma calculate_score_eq: "calculate_score t = calculate_tower_score (cards t)"
  by (simp add: calculate_score_def calculate_tower_score_def top_card_def is_tower_top_def Let_def)

lemma bonus_Max:
  "calculate_tower_bonus ls = Max (insert 0 ((\<lambda>cs. int (length cs)) ` set ls))"
proof (cases ls)
  case Nil
  then show ?thesis by (simp add: calculate_tower_bonus_def max_default_def)
next
  case (Cons a as)
  let ?S = "(\<lambda>cs. int (length cs)) ` set ls"
  have fin: "finite ?S" and ne: "?S \<noteq> {}" using Cons by auto
  have "int (length a) \<in> ?S" using Cons by simp
  then have "int (length a) \<le> Max ?S" using fin by (rule Max_ge[rotated])
  then have ge: "0 \<le> Max ?S" by simp
  have "Max (insert 0 ?S) = max 0 (Max ?S)" using fin ne by simp
  also have "\<dots> = Max ?S" using ge by simp
  finally have m: "Max (insert 0 ?S) = Max ?S" .
  have md: "max_default 0 (map (\<lambda>cs. int (length cs)) ls) = Max ?S"
    using Cons by (simp add: max_default_Max)
  show ?thesis unfolding calculate_tower_bonus_def Let_def md m using ge by auto
qed

lemma penalty_exact: "0 \<le> k \<Longrightarrow> 2 * calculate_tear_down_penalty k = k * (k + 1)"
proof -
  have "even (k * (k + 1))" by simp
  then have "2 * (k * (k + 1) div 2) = k * (k + 1)" by (rule dvd_mult_div_cancel)
  moreover assume "0 \<le> k"
  ultimately show ?thesis by (auto simp: calculate_tear_down_penalty_def)
qed

text \<open>
  C7. For a tear-down pile of \<open>k \<ge> 0\<close> cards the penalty is the triangular number
  \<open>k (k + 1) / 2\<close>, the division being exact; it is 0, 1, 3, 6, 15 for 0, 1, 2, 3, 5
  cards. The score of a player is the sum of the scores of the towers, plus the height
  of the tallest tower (0 when all are empty), minus this penalty; the method
  \<open>PlayerState.total_score\<close> computes the same number.
\<close>

theorem teardown_penalty_triangular:
  "0 \<le> k \<Longrightarrow>
     calculate_tear_down_penalty k = k * (k + 1) div 2
   \<and> 2 * calculate_tear_down_penalty k = k * (k + 1)
   \<and> calculate_tear_down_penalty 0 = 0
   \<and> calculate_tear_down_penalty 1 = 1
   \<and> calculate_tear_down_penalty 2 = 3
   \<and> calculate_tear_down_penalty 3 = 6
   \<and> calculate_tear_down_penalty 5 = 15
   \<and> calculate_penalty p = calculate_tear_down_penalty (int (length (tear_down_pile p)))
   \<and> calculate_player_score p =
       (\<Sum>t\<leftarrow>tower_values p. calculate_tower_score (cards t))
       + Max (insert 0 ((\<lambda>t. int (height t)) ` set (tower_values p)))
       - calculate_tear_down_penalty (int (length (tear_down_pile p)))
   \<and> total_score p = calculate_player_score p"
proof -
  assume k: "0 \<le> k"
  have a: "calculate_tear_down_penalty k = k * (k + 1) div 2"
    using k by (auto simp: calculate_tear_down_penalty_def)
  have c: "calculate_tear_down_penalty 0 = 0" "calculate_tear_down_penalty 1 = 1"
    "calculate_tear_down_penalty 2 = 3" "calculate_tear_down_penalty 3 = 6"
    "calculate_tear_down_penalty 5 = 15"
    by (simp_all add: calculate_tear_down_penalty_def)
  have d: "calculate_penalty p = calculate_tear_down_penalty (int (length (tear_down_pile p)))"
    by (auto simp: calculate_penalty_def calculate_tear_down_penalty_def Let_def)
  have img: "(\<lambda>cs. int (length cs)) ` set (map cards (tower_values p))
      = (\<lambda>t. int (height t)) ` set (tower_values p)"
    by (simp add: image_image height_def)
  have e: "calculate_player_score p =
       (\<Sum>t\<leftarrow>tower_values p. calculate_tower_score (cards t))
       + Max (insert 0 ((\<lambda>t. int (height t)) ` set (tower_values p)))
       - calculate_tear_down_penalty (int (length (tear_down_pile p)))"
    unfolding calculate_player_score_def Let_def fold_add_sum bonus_Max img by simp
  have hmap: "map (\<lambda>t. int (height t)) (tower_values p)
      = map (\<lambda>cs. int (length cs)) (map cards (tower_values p))"
    by (simp add: height_def comp_def)
  have sc: "calculate_score = (\<lambda>t. calculate_tower_score (cards t))"
    by (rule ext) (rule calculate_score_eq)
  have f: "total_score p = calculate_player_score p"
    unfolding total_score_def calculate_player_score_def Let_def d fold_add_sum hmap
      calculate_tower_bonus_def sc
    by simp
  from a penalty_exact[OF k] c d e f show ?thesis by blast
qed

theorem teardown_penalty_triangular_witness:
  "(0::int) \<le> 4 \<and> calculate_tear_down_penalty 4 = 10
   \<and> calculate_player_score demo_player = 11 \<and> total_score demo_player = 11"
  using teardown_penalty_triangular [of 4 demo_player]
  by (simp add: demo_player_def new_player_def tower_values_def all_suits_def
      calculate_tower_score_def height_def)

subsection \<open>Rules\<close>


lemma capped_rejects: "is_capped t \<Longrightarrow> \<not> can_place t c"
  by (auto simp: can_place_def is_capped_def top_card_def Let_def split: if_splits)


lemma can_place_card_True:
  "(can_place_card s p c suit = Inr True) =
     (phase s = BUILDING \<and> auction_winner_index s = Some p \<and> c \<in> set (cards_to_process s) \<and>
      (\<exists>pl t. py_get (players s) p = Inr pl \<and> towers pl suit = Some t \<and> can_place t c))"
  by (auto simp: can_place_card_def get_tower_def split: sum.splits option.splits)

lemma can_bid_True:
  "(can_bid s p a = Inr True) =
    (phase s = BIDDING \<and> current_player_index s = p \<and>
     (\<exists>pl. py_get (players s) p = Inr pl \<and> \<not> has_passed pl) \<and> current_high_bid s < a \<and> a \<le> 5)"
  by (auto simp: can_bid_def split: sum.splits)



subsection \<open>Rejected actions\<close>

text \<open>
  C5. When the precondition of an action is false (\<open>can_bid\<close>, \<open>can_pass\<close>,
  \<open>can_place_card\<close> or \<open>can_tear_down\<close> returns false), the operation (\<open>submit_bid\<close>,
  \<open>submit_pass\<close>, \<open>place_card\<close>, \<open>tear_down_tower\<close>) returns false without raising,
  and the game state (and the random source) is the one it was given.
\<close>

theorem illegal_action_rejected:
  "(can_bid s p a = Inr False \<longrightarrow> submit_bid s p a = Inr (False, s))
 \<and> (can_pass s p = Inr False \<longrightarrow> submit_pass s p = Inr (False, s))
 \<and> (can_place_card s p c suit = Inr False \<longrightarrow> place_card sh r s p c suit = Inr (False, s, r))
 \<and> (can_tear_down s p suit = Inr False \<longrightarrow> tear_down_tower s p suit = Inr (False, s))"
  by (simp add: submit_bid_def submit_pass_def place_card_def tear_down_tower_def)

theorem illegal_action_rejected_witness:
  "can_bid game2 1 3 = Inr False \<and> submit_bid game2 1 3 = Inr (False, game2)
 \<and> can_pass game2 1 = Inr False \<and> submit_pass game2 1 = Inr (False, game2)
 \<and> can_place_card game2 0 fire5 FIRE = Inr False
 \<and> place_card no_shuffle () game2 0 fire5 FIRE = Inr (False, game2, ())
 \<and> can_tear_down game2 0 FIRE = Inr False \<and> tear_down_tower game2 0 FIRE = Inr (False, game2)"
proof -
  have h1: "can_bid game2 1 3 = Inr False" by code_simp
  have h2: "can_pass game2 1 = Inr False" by code_simp
  have h3: "can_place_card game2 0 fire5 FIRE = Inr False" by code_simp
  have h4: "can_tear_down game2 0 FIRE = Inr False" by code_simp
  from illegal_action_rejected[of game2 1 3 fire5 FIRE no_shuffle "()"] h1 h2
  have a: "submit_bid game2 1 3 = Inr (False, game2)" "submit_pass game2 1 = Inr (False, game2)"
    by blast+
  from illegal_action_rejected[of game2 0 3 fire5 FIRE no_shuffle "()"] h3 h4
  have b: "place_card no_shuffle () game2 0 fire5 FIRE = Inr (False, game2, ())"
    "tear_down_tower game2 0 FIRE = Inr (False, game2)"
    by blast+
  from h1 h2 h3 h4 a b show ?thesis by blast
qed

subsection \<open>The auction\<close>

text \<open>
  C6. When \<open>can_bid(state, p, 5)\<close> holds, \<open>submit_bid(state, p, 5)\<close> succeeds and ends
  the auction at once, however many bidders are still active: in the resulting state
  \<open>p\<close> is the auction winner, the phase is Building and it is \<open>p\<close>'s turn.
\<close>

theorem bid_five_wins:
  "can_bid s p 5 = Inr True \<Longrightarrow>
   \<exists>s'. submit_bid s p 5 = Inr (True, s') \<and> auction_winner_index s' = Some p
       \<and> phase s' = BUILDING \<and> current_player_index s' = p"
proof -
  assume cb: "can_bid s p 5 = Inr True"
  then obtain pl where pl: "py_get (players s) p = Inr pl"
    by (auto simp: can_bid_True)
  have g: "py_get (py_put (players s) p (pl\<lparr>current_bid := Some 5\<rparr>)) p
      = Inr (pl\<lparr>current_bid := Some 5\<rparr>)"
    using pl by (rule py_get_put)
  show ?thesis
    using cb pl g
    by (simp add: submit_bid_def is_bid_winning_bid_def end_auction_def award_def
        with_flag_def Let_def)
qed

theorem bid_five_wins_witness:
  "can_bid game2 0 5 = Inr True
   \<and> length (active_bidders game2) = 2
   \<and> (\<exists>s'. submit_bid game2 0 5 = Inr (True, s') \<and> auction_winner_index s' = Some 0
       \<and> phase s' = BUILDING \<and> current_player_index s' = 0)"
proof -
  have h: "can_bid game2 0 5 = Inr True" by code_simp
  have n: "length (active_bidders game2) = 2" by code_simp
  from h n bid_five_wins[OF h] show ?thesis by blast
qed

subsection \<open>The deck\<close>

lemma length_make_cards: "length (make_cards ids specs) = length specs"
  by (simp add: make_cards_def)

lemma make_cards_mem:
  assumes "(s, v) \<in> set specs"
  shows "\<exists>c\<in>set (make_cards ids specs). card_suit c = s \<and> card_value c = v"
proof -
  from assms obtain k where k: "k < length specs" "specs ! k = (s, v)"
    by (auto simp: in_set_conv_nth)
  then have "(k, (s, v)) \<in> set (enumerate 0 specs)"
    by (simp add: in_set_enumerate_eq)
  then have "\<lparr>card_id = ids k, card_suit = s, card_value = v\<rparr> \<in> set (make_cards ids specs)"
    unfolding make_cards_def by force
  then show ?thesis by force
qed

lemma base_set_mem: "0 \<le> v \<Longrightarrow> v \<le> 15 \<Longrightarrow> (s, v) \<in> set base_set"
  by (cases s) (auto simp: base_set_def all_suits_def)

lemma length_base_set: "length base_set = 80"
  by (simp add: base_set_def all_suits_def length_concat)

lemma length_expansion_set: "length expansion_set = 30"
  by (simp add: expansion_set_def all_suits_def)

lemma shuffle_length:
  "\<forall>r xs. mset (fst (sh r xs)) = mset xs \<Longrightarrow> length (fst (sh r xs)) = length xs"
  by (metis size_mset)

lemma shuffle_set:
  "\<forall>r xs. mset (fst (sh r xs)) = mset xs \<Longrightarrow> set (fst (sh r xs)) = set xs"
  by (metis set_mset_mset)

text \<open>
  C8. Whatever permutation the shuffle applies, the deck built for fewer than 4 players
  (2 or 3) has exactly 80 cards and the deck built for 4 or more players (4 or 5) has
  exactly 110 cards; every deck holds, for each of the five suits, a card of every value
  from 0 to 15.
\<close>

theorem deck_composition:
  assumes perm: "\<forall>r xs. mset (fst (sh r xs)) = mset xs"
  shows "(num_players < 4 \<longrightarrow> length (fst (create_standard_deck sh r ids num_players)) = 80)
       \<and> (4 \<le> num_players \<longrightarrow> length (fst (create_standard_deck sh r ids num_players)) = 110)
       \<and> (\<forall>s. \<forall>v\<in>{0..15}. \<exists>c\<in>set (fst (create_standard_deck sh r ids num_players)).
             card_suit c = s \<and> card_value c = v)"
proof -
  let ?specs = "base_set @ (if num_players \<ge> 4 then expansion_set else [])"
  have len: "length (fst (create_standard_deck sh r ids num_players)) = length ?specs"
    unfolding create_standard_deck_def
    by (simp only: shuffle_length[OF perm] length_make_cards)
  have st: "set (fst (create_standard_deck sh r ids num_players)) = set (make_cards ids ?specs)"
    unfolding create_standard_deck_def by (rule shuffle_set[OF perm])
  have mem: "\<exists>c\<in>set (make_cards ids ?specs). card_suit c = s \<and> card_value c = v"
    if "v \<in> {0..15}" for s v
  proof -
    from that have "(s, v) \<in> set ?specs" by (simp add: base_set_mem)
    then show ?thesis by (rule make_cards_mem)
  qed
  show ?thesis
    using len mem unfolding st by (simp add: length_base_set length_expansion_set)
qed

theorem deck_composition_witness:
  "length (fst (create_standard_deck no_shuffle () (\<lambda>k. k) 2)) = 80
   \<and> length (fst (create_standard_deck no_shuffle () (\<lambda>k. k) 5)) = 110
   \<and> (\<exists>c\<in>set (fst (create_standard_deck no_shuffle () (\<lambda>k. k) 5)).
         card_suit c = WATER \<and> card_value c = 15)"
proof -
  have perm: "\<forall>r xs. mset (fst (no_shuffle r xs)) = mset xs"
    by (simp add: no_shuffle_def)
  from deck_composition[OF perm, of 2 "()" "\<lambda>k. k"] deck_composition[OF perm, of 5 "()" "\<lambda>k. k"]
  show ?thesis by simp
qed

subsection \<open>Resolving an auction\<close>

text \<open>
  C1. The claim does not hold of the code. In the two-player game \<open>game2\<close> player 0
  passes first; \<open>submit_pass\<close> then calls \<open>end_auction\<close> with player 1 as winner, whose
  bid was never set, so the winning bid is 0. The display row is discarded and a new
  round is started, but the statements after the \<open>if\<close> run as well: the phase of the
  resulting state is Building, with no auction winner.
\<close>

theorem zero_bid_ends_in_building:
  "current_bid (players game2_passed ! 1) = None
   \<and> map_sum id phase (end_auction game2_passed (Some 1)) = Inr BUILDING
   \<and> map_sum id auction_winner_index (end_auction game2_passed (Some 1)) = Inr None
   \<and> map_sum id (\<lambda>(ok, s). (ok, phase s)) (submit_pass game2 0) = Inr (True, BUILDING)"
  by code_simp

lemma award_zero_bid:
  "py_get (players s) w = Inr pl \<Longrightarrow> current_bid pl = None \<or> current_bid pl = Some 0 \<Longrightarrow>
   \<exists>s'. end_auction s (Some w) = Inr s' \<and> phase s' = BUILDING"
  by (auto simp: end_auction_def award_def Let_def)

text \<open>
  C2, as the code has it. When \<open>end_auction\<close> is called with no winner, there is no
  high bidder and the number of active bidders is not 1, the display row is moved to the
  discard pile and nothing else changes: no new round is started, the auction state is
  not reset, no display row is dealt and the phase stays what it was.
\<close>

theorem void_round_only_discards:
  "high_bidder_index s = None \<Longrightarrow> length (active_bidders s) \<noteq> 1 \<Longrightarrow>
   end_auction s None =
     Inr (s\<lparr>discard_pile := discard_pile s @ display_cards s, display_cards := []\<rparr>)"
  by (simp add: end_auction_def discard_display_cards_def)

theorem void_round_only_discards_witness:
  "high_bidder_index game2_all_passed = None \<and> length (active_bidders game2_all_passed) \<noteq> 1
   \<and> end_auction game2_all_passed None =
     Inr (game2_all_passed\<lparr>discard_pile := discard_pile game2_all_passed @ display_cards game2_all_passed,
           display_cards := []\<rparr>)"
proof -
  have a: "high_bidder_index game2_all_passed = None" by code_simp
  have b: "length (active_bidders game2_all_passed) \<noteq> 1" by code_simp
  from a b void_round_only_discards[OF a b] show ?thesis by blast
qed

text \<open>
  C2 as stated fails: with both players passed and nobody having bid, \<open>end_auction\<close>
  returns a state whose display row is empty although 7 cards are in the deck, whose
  players are still marked as passed and whose round number is unchanged; starting a
  new round would have dealt 5 cards and cleared the marks.
\<close>

theorem void_round_counterexample:
  "high_bidder_index game2_all_passed = None
   \<and> length (active_bidders game2_all_passed) = 0
   \<and> \<not> isl (end_auction game2_all_passed None)
   \<and> display_cards (projr (end_auction game2_all_passed None)) = []
   \<and> length (deck (projr (end_auction game2_all_passed None))) = 7
   \<and> map has_passed (players (projr (end_auction game2_all_passed None))) = [True, True]
   \<and> round_number (projr (end_auction game2_all_passed None)) = round_number game2_all_passed
   \<and> length (display_cards (start_new_round (discard_display_cards game2_all_passed))) = 5
   \<and> map has_passed (players (start_new_round (discard_display_cards game2_all_passed))) = [False, False]"
  by code_simp

subsection \<open>Python lists, continued\<close>

lemma py_get_nth:
  "py_get xs p = Inr x \<Longrightarrow> nat (py_norm xs p) < length xs \<and> xs ! nat (py_norm xs p) = x"
  by (auto simp: py_get_def Let_def split: if_splits)

lemma length_py_put [simp]: "length (py_put xs p v) = length xs"
  by (simp add: py_put_def)

lemma nth_py_put:
  "i < length xs \<Longrightarrow> py_put xs p v ! i = (if i = nat (py_norm xs p) then v else xs ! i)"
  by (simp add: py_put_def nth_list_update)

lemma map_py_put_same:
  "py_get xs p = Inr x \<Longrightarrow> f v = f x \<Longrightarrow> map f (py_put xs p v) = map f xs"
  by (auto simp: py_put_def map_update dest!: py_get_nth intro: list_update_same_conv[THEN iffD2])

subsection \<open>What the controllers leave unchanged\<close>

lemma deal_display_cards_players [simp]:
  "players (snd (deal_display_cards s n)) = players s"
  by (simp add: deal_display_cards_def split: prod.splits)

lemma start_new_round_players:
  "players (start_new_round s) = map (\<lambda>p. p\<lparr>current_bid := None, has_passed := False\<rparr>) (players s)"
  by (auto simp: start_new_round_def deal_display_cards_def Let_def split: prod.splits)

lemma award_players:
  "award s w = Inr s' \<Longrightarrow>
   players s' = players s \<or>
   players s' = map (\<lambda>p. p\<lparr>current_bid := None, has_passed := False\<rparr>) (players s)"
  by (auto simp: award_def Let_def start_new_round_players discard_display_cards_def
      split: sum.splits if_splits)

lemma end_auction_players:
  "end_auction s w = Inr s' \<Longrightarrow>
   players s' = players s \<or>
   players s' = map (\<lambda>p. p\<lparr>current_bid := None, has_passed := False\<rparr>) (players s)"
  by (auto simp: end_auction_def discard_display_cards_def
      split: option.splits sum.splits if_splits dest: award_players)

lemma advance_turn_frame:
  "advance_turn s = Inr s1 \<Longrightarrow>
   s1 = s\<lparr>current_player_index := (current_player_index s + 1) mod int (length (players s))\<rparr>
   \<and> players s \<noteq> []"
  by (auto simp: advance_turn_def split: if_splits)

lemma advance_loop_frame:
  "advance_loop k orig s = Inr s' \<Longrightarrow>
   \<exists>c. s' = s\<lparr>current_player_index := c\<rparr> \<and>
       (c = current_player_index s \<or> (0 \<le> c \<and> c < int (length (players s))))"
proof (induction k arbitrary: s)
  case 0
  then have "s' = s\<lparr>current_player_index := current_player_index s\<rparr>" by simp
  then show ?case by blast
next
  case (Suc k)
  from Suc.prems obtain s1 where s1: "advance_turn s = Inr s1"
    by (auto split: sum.splits)
  define c1 where "c1 = (current_player_index s + 1) mod int (length (players s))"
  from s1 have f1: "s1 = s\<lparr>current_player_index := c1\<rparr>" and ne: "players s \<noteq> []"
    by (auto dest: advance_turn_frame simp: c1_def)
  from ne have r1: "0 \<le> c1 \<and> c1 < int (length (players s))"
    by (simp add: c1_def)
  from Suc.prems s1 obtain p where p: "py_get (players s1) (current_player_index s1) = Inr p"
    by (cases "py_get (players s1) (current_player_index s1)") simp_all
  from Suc.prems have "(if \<not> has_passed p then Inr s1
       else if current_player_index s1 = orig then Inr s1
       else advance_loop k orig s1) = Inr s'"
    by (simp add: s1 p)
  then consider "s' = s1" | "advance_loop k orig s1 = Inr s'"
    by (cases "has_passed p"; cases "current_player_index s1 = orig") simp_all
  then show ?case
  proof cases
    case 1
    with f1 r1 show ?thesis by blast
  next
    case 2
    from Suc.IH[OF 2] obtain c where c: "s' = s1\<lparr>current_player_index := c\<rparr>"
      "c = current_player_index s1 \<or> (0 \<le> c \<and> c < int (length (players s1)))"
      by blast
    from c(1) have "s' = s\<lparr>current_player_index := c\<rparr>" unfolding f1 by simp
    moreover from c(2) r1 have "0 \<le> c \<and> c < int (length (players s))"
      unfolding f1 by auto
    ultimately show ?thesis by blast
  qed
qed

lemma advance_bidding_turn_frame:
  "advance_bidding_turn s = Inr s' \<Longrightarrow>
   \<exists>c. s' = s\<lparr>current_player_index := c\<rparr> \<and>
       (c = current_player_index s \<or> (0 \<le> c \<and> c < int (length (players s))))"
  unfolding advance_bidding_turn_def by (rule advance_loop_frame)

subsection \<open>Case rules for the four operations\<close>

lemma submit_bid_cases:
  assumes "submit_bid s p a = Inr (ok, s')"
  obtains (rejected) "\<not> ok" "s' = s" "can_bid s p a = Inr False"
  | (accepted) pl s1 where "ok" "can_bid s p a = Inr True" "py_get (players s) p = Inr pl"
      "s1 = s\<lparr>players := py_put (players s) p (pl\<lparr>current_bid := Some a\<rparr>),
              current_high_bid := a, high_bidder_index := Some p\<rparr>"
      "end_auction s1 (Some p) = Inr s' \<or> advance_bidding_turn s1 = Inr s'"
proof (cases "can_bid s p a")
  case (Inl e)
  with assms show ?thesis by (simp add: submit_bid_def)
next
  case (Inr b)
  show ?thesis
  proof (cases b)
    case False
    with Inr assms rejected show ?thesis by (simp add: submit_bid_def)
  next
    case True
    with Inr have cb: "can_bid s p a = Inr True" by simp
    then obtain pl where pl: "py_get (players s) p = Inr pl" by (auto simp: can_bid_True)
    from assms cb pl show ?thesis
      by (intro accepted[of pl])
        (auto simp: submit_bid_def with_flag_def Let_def split: if_splits sum.splits)
  qed
qed

lemma can_pass_True:
  "(can_pass s p = Inr True) =
    (phase s = BIDDING \<and> current_player_index s = p \<and>
     (\<exists>pl. py_get (players s) p = Inr pl \<and> \<not> has_passed pl))"
  by (auto simp: can_pass_def split: sum.splits)

lemma submit_pass_cases:
  assumes "submit_pass s p = Inr (ok, s')"
  obtains (rejected) "\<not> ok" "s' = s" "can_pass s p = Inr False"
  | (accepted) pl s1 where "ok" "can_pass s p = Inr True" "py_get (players s) p = Inr pl"
      "s1 = s\<lparr>players := py_put (players s) p (pl\<lparr>has_passed := True\<rparr>)\<rparr>"
      "(\<exists>w. get_player_index s1 (player_id (hd (active_bidders s1))) = Inr w
            \<and> end_auction s1 (Some w) = Inr s')
       \<or> advance_bidding_turn s1 = Inr s'"
proof (cases "can_pass s p")
  case (Inl e)
  with assms show ?thesis by (simp add: submit_pass_def)
next
  case (Inr b)
  show ?thesis
  proof (cases b)
    case False
    with Inr assms rejected show ?thesis by (simp add: submit_pass_def)
  next
    case True
    with Inr have cb: "can_pass s p = Inr True" by simp
    then obtain pl where pl: "py_get (players s) p = Inr pl" by (auto simp: can_pass_True)
    from assms cb pl show ?thesis
      by (intro accepted[of pl])
        (auto simp: submit_pass_def with_flag_def Let_def split: if_splits sum.splits)
  qed
qed

lemma can_tear_down_True:
  "(can_tear_down s p suit = Inr True) =
     (phase s = BUILDING \<and> auction_winner_index s = Some p \<and>
      (\<exists>pl t. py_get (players s) p = Inr pl \<and> towers pl suit = Some t \<and> cards t \<noteq> []))"
  by (auto simp: can_tear_down_def get_tower_def height_def split: sum.splits option.splits)

lemma tear_down_tower_cases:
  assumes "tear_down_tower s p suit = Inr (ok, s')"
  obtains (rejected) "\<not> ok" "s' = s" "can_tear_down s p suit = Inr False"
  | (accepted) pl t where "ok" "can_tear_down s p suit = Inr True"
      "py_get (players s) p = Inr pl" "towers pl suit = Some t" "cards t \<noteq> []"
      "s' = s\<lparr>players := py_put (players s) p
               (pl\<lparr>towers := (towers pl)(suit \<mapsto> t\<lparr>cards := []\<rparr>),
                   tear_down_pile := tear_down_pile pl @ cards t\<rparr>)\<rparr>"
proof (cases "can_tear_down s p suit")
  case (Inl e)
  with assms show ?thesis by (simp add: tear_down_tower_def)
next
  case (Inr b)
  show ?thesis
  proof (cases b)
    case False
    with Inr assms rejected show ?thesis by (simp add: tear_down_tower_def)
  next
    case True
    with Inr have cb: "can_tear_down s p suit = Inr True" by simp
    then obtain pl t where pl: "py_get (players s) p = Inr pl" "towers pl suit = Some t"
      "cards t \<noteq> []"
      by (auto simp: can_tear_down_True)
    from assms cb pl show ?thesis
      by (intro accepted[of pl t])
        (auto simp: tear_down_tower_def get_tower_def tear_down_def)
  qed
qed

lemma place_card_cases:
  assumes "place_card sh r s p c suit = Inr (ok, s', r')"
  obtains (rejected) "\<not> ok" "s' = s" "r' = r" "can_place_card s p c suit = Inr False"
  | (accepted) pl t s2 where "ok" "can_place_card s p c suit = Inr True"
      "py_get (players s) p = Inr pl" "towers pl suit = Some t" "can_place t c"
      "s2 = s\<lparr>players := py_put (players s) p
               (pl\<lparr>towers := (towers pl)(suit \<mapsto> t\<lparr>cards := cards t @ [c]\<rparr>)\<rparr>),
              cards_to_process := remove1 c (cards_to_process s)\<rparr>"
      "(cards_to_process s2 \<noteq> [] \<and> s' = s2 \<and> r' = r)
       \<or> (cards_to_process s2 = [] \<and> end_building_phase sh r s2 = (s', r'))"
proof (cases "can_place_card s p c suit")
  case (Inl e)
  with assms show ?thesis by (simp add: place_card_def)
next
  case (Inr b)
  show ?thesis
  proof (cases b)
    case False
    with Inr assms rejected show ?thesis by (simp add: place_card_def)
  next
    case True
    with Inr have cb: "can_place_card s p c suit = Inr True" by simp
    then obtain pl t where pl: "py_get (players s) p = Inr pl" "towers pl suit = Some t"
      "can_place t c" and mem: "c \<in> set (cards_to_process s)"
      by (auto simp: can_place_card_True)
    from assms cb pl mem show ?thesis
      by (intro accepted[of pl t])
        (auto simp: place_card_def get_tower_def add_card_def Let_def split: if_splits prod.splits)
  qed
qed


subsection \<open>Bidding leaves the towers and piles alone\<close>

lemma reset_holdings:
  "map holdings (map (\<lambda>p. p\<lparr>current_bid := None, has_passed := False\<rparr>) ps) = map holdings ps"
  by (simp add: holdings_def)

lemma start_new_round_holdings:
  "map holdings (players (start_new_round s)) = map holdings (players s)"
  unfolding start_new_round_players by (rule reset_holdings)

lemma end_auction_holdings:
  "end_auction s w = Inr s' \<Longrightarrow> map holdings (players s') = map holdings (players s)"
  using end_auction_players[of s w s'] reset_holdings[of "players s"] by auto

lemma advance_bidding_turn_players:
  "advance_bidding_turn s = Inr s' \<Longrightarrow> players s' = players s"
  by (auto dest!: advance_bidding_turn_frame)

lemma submit_bid_holdings:
  assumes "submit_bid s p a = Inr (ok, s')"
  shows "map holdings (players s') = map holdings (players s)"
  using assms
proof (cases rule: submit_bid_cases)
  case rejected
  then show ?thesis by simp
next
  case (accepted pl s1)
  have "map holdings (players s1) = map holdings (players s)"
    using accepted(3) by (simp add: accepted(4) map_py_put_same holdings_def)
  with accepted(5) show ?thesis
    by (auto dest: end_auction_holdings advance_bidding_turn_players)
qed

lemma submit_pass_holdings:
  assumes "submit_pass s p = Inr (ok, s')"
  shows "map holdings (players s') = map holdings (players s)"
  using assms
proof (cases rule: submit_pass_cases)
  case rejected
  then show ?thesis by simp
next
  case (accepted pl s1)
  have "map holdings (players s1) = map holdings (players s)"
    using accepted(3) by (simp add: accepted(4) map_py_put_same holdings_def)
  with accepted(5) show ?thesis
    by (auto dest: end_auction_holdings advance_bidding_turn_players)
qed

lemma refill_players:
  "refill_deck_from_discard sh r s = (b, s1, r1) \<Longrightarrow> players s1 = players s"
  by (auto simp: refill_deck_from_discard_def shuffle_deck_def split: if_splits prod.splits)

lemma end_building_phase_holdings:
  "end_building_phase sh r s = (s', r') \<Longrightarrow> map holdings (players s') = map holdings (players s)"
  by (auto simp: end_building_phase_def start_new_round_holdings
      split: if_splits prod.splits dest: refill_players)

subsection \<open>A capped tower\<close>

lemma tower_of_holdings:
  "map holdings (players s') = map holdings (players s) \<Longrightarrow> tower_of s' i suit = tower_of s i suit"
proof -
  assume h: "map holdings (players s') = map holdings (players s)"
  then have len: "length (players s') = length (players s)" by (rule map_eq_imp_length_eq)
  show ?thesis
  proof (cases "i < length (players s)")
    case True
    with h len have "holdings (players s' ! i) = holdings (players s ! i)"
      by (metis nth_map)
    with True len show ?thesis by (simp add: tower_of_def holdings_def)
  next
    case False
    with len show ?thesis by (simp add: tower_of_def)
  qed
qed

lemma tower_of_put:
  assumes "py_get (players s) p = Inr pl"
    and "nat (py_norm (players s) p) = i \<longrightarrow> towers v suit = towers pl suit"
  shows "tower_of (s\<lparr>players := py_put (players s) p v\<rparr>) i suit = tower_of s i suit"
  using assms py_get_nth[OF assms(1)]
  by (auto simp: tower_of_def nth_py_put)

lemma py_get_norm:
  "py_get xs p = Inr x \<Longrightarrow> 0 \<le> py_norm xs p \<and> py_norm xs p < int (length xs)"
  by (auto simp: py_get_def Let_def split: if_splits)

lemma tear_down_tower_other:
  assumes "tear_down_tower s p su = Inr (ok, s')"
    and "\<not> (su = suit \<and> py_norm (players s) p = int i \<and> can_tear_down s p su = Inr True)"
  shows "tower_of s' i suit = tower_of s i suit"
  using assms(1)
proof (cases rule: tear_down_tower_cases)
  case rejected
  then show ?thesis by simp
next
  case (accepted pl t)
  have keep: "nat (py_norm (players s) p) = i \<longrightarrow>
      towers (pl\<lparr>towers := (towers pl)(su \<mapsto> t\<lparr>cards := []\<rparr>),
                 tear_down_pile := tear_down_pile pl @ cards t\<rparr>) suit = towers pl suit"
  proof
    assume "nat (py_norm (players s) p) = i"
    with py_get_norm[OF accepted(3)] have "py_norm (players s) p = int i" by auto
    with assms(2) accepted(2) have "su \<noteq> suit" by simp
    then show "towers (pl\<lparr>towers := (towers pl)(su \<mapsto> t\<lparr>cards := []\<rparr>),
                 tear_down_pile := tear_down_pile pl @ cards t\<rparr>) suit = towers pl suit"
      by simp
  qed
  show ?thesis unfolding accepted(6) by (rule tower_of_put[OF accepted(3) keep])
qed

lemma tear_down_capped:
  assumes "phase s = BUILDING" "auction_winner_index s = Some (int i)"
    and "tower_of s i suit = Some t" "is_capped t"
  shows "\<exists>s'. tear_down_tower s (int i) suit = Inr (True, s')
            \<and> tower_of s' i suit = Some (t\<lparr>cards := []\<rparr>)"
proof -
  from assms(3) have i: "i < length (players s)" "towers (players s ! i) suit = Some t"
    by (auto simp: tower_of_def split: if_splits)
  then have g: "py_get (players s) (int i) = Inr (players s ! i)"
    by (simp add: py_get_def py_norm_def)
  from assms(4) have ne: "cards t \<noteq> []"
    by (auto simp: is_capped_def top_card_def split: if_splits)
  have n: "nat (py_norm (players s) (int i)) = i" by (simp add: py_norm_def)
  have ct: "can_tear_down s (int i) suit = Inr True"
    using assms(1,2) g i(2) ne by (simp add: can_tear_down_True)
  let ?v = "(players s ! i)\<lparr>towers := (towers (players s ! i))(suit \<mapsto> t\<lparr>cards := []\<rparr>),
               tear_down_pile := tear_down_pile (players s ! i) @ cards t\<rparr>"
  let ?s' = "s\<lparr>players := py_put (players s) (int i) ?v\<rparr>"
  have "tear_down_tower s (int i) suit = Inr (True, ?s')"
    using ct g i(2) by (simp add: tear_down_tower_def get_tower_def tear_down_def)
  moreover have "tower_of ?s' i suit = Some (t\<lparr>cards := []\<rparr>)"
    using i(1) n by (simp add: tower_of_def nth_py_put)
  ultimately show ?thesis by blast
qed

lemma empty_tower_accepts:
  "\<not> is_capped (t\<lparr>cards := []\<rparr>) \<and> can_place (t\<lparr>cards := []\<rparr>) c"
  by (simp add: is_capped_def top_card_def can_place_def)

lemma place_card_capped:
  assumes "place_card sh r s p c su = Inr (ok, s', r')"
    and "tower_of s i suit = Some t" "is_capped t"
  shows "tower_of s' i suit = Some t"
  using assms(1)
proof (cases rule: place_card_cases)
  case rejected
  with assms(2) show ?thesis by simp
next
  case (accepted pl t0 s2)
  have keep: "nat (py_norm (players s) p) = i \<longrightarrow>
      towers (pl\<lparr>towers := (towers pl)(su \<mapsto> t0\<lparr>cards := cards t0 @ [c]\<rparr>)\<rparr>) suit = towers pl suit"
  proof
    assume "nat (py_norm (players s) p) = i"
    with py_get_nth[OF accepted(3)] assms(2) have "towers pl suit = Some t"
      by (auto simp: tower_of_def split: if_splits)
    with accepted(4,5) assms(3) have "su \<noteq> suit" by (auto dest: capped_rejects)
    then show "towers (pl\<lparr>towers := (towers pl)(su \<mapsto> t0\<lparr>cards := cards t0 @ [c]\<rparr>)\<rparr>) suit
        = towers pl suit" by simp
  qed
  have "tower_of s2 i suit = tower_of (s\<lparr>players := players s2\<rparr>) i suit"
    by (simp add: tower_of_def)
  also have "\<dots> = tower_of s i suit"
    unfolding accepted(6) using tower_of_put[OF accepted(3) keep] by simp
  finally have s2: "tower_of s2 i suit = Some t" using assms(2) by simp
  from accepted(7) show ?thesis
  proof
    assume "cards_to_process s2 \<noteq> [] \<and> s' = s2 \<and> r' = r"
    with s2 show ?thesis by simp
  next
    assume "cards_to_process s2 = [] \<and> end_building_phase sh r s2 = (s', r')"
    then have "end_building_phase sh r s2 = (s', r')" ..
    then have "tower_of s' i suit = tower_of s2 i suit"
      by (intro tower_of_holdings) (rule end_building_phase_holdings)
    with s2 show ?thesis by simp
  qed
qed

lemma step_capped:
  assumes "step sh r s a = Inr (ok, s', r')" "\<not> tears_down s i suit a"
    and "tower_of s i suit = Some t" "is_capped t"
  shows "tower_of s' i suit = Some t"
proof (cases a)
  case (Bid p n)
  with assms(1) obtain ok' where "submit_bid s p n = Inr (ok', s')"
    by (auto simp: keep_rng_def split: sum.splits)
  then have "tower_of s' i suit = tower_of s i suit"
    by (intro tower_of_holdings) (rule submit_bid_holdings)
  then show ?thesis using assms(3) by simp
next
  case (Pass p)
  with assms(1) obtain ok' where "submit_pass s p = Inr (ok', s')"
    by (auto simp: keep_rng_def split: sum.splits)
  then have "tower_of s' i suit = tower_of s i suit"
    by (intro tower_of_holdings) (rule submit_pass_holdings)
  then show ?thesis using assms(3) by simp
next
  case (Place p c su)
  with assms show ?thesis by (auto dest: place_card_capped)
next
  case (TearDown p su)
  with assms(1) obtain ok' where "tear_down_tower s p su = Inr (ok', s')"
    by (auto simp: keep_rng_def split: sum.splits)
  moreover from TearDown assms(2)
  have "\<not> (su = suit \<and> py_norm (players s) p = int i \<and> can_tear_down s p su = Inr True)"
    by simp
  ultimately have "tower_of s' i suit = tower_of s i suit" by (rule tear_down_tower_other)
  then show ?thesis using assms(3) by simp
qed

lemma run_capped:
  "run sh r s as = Inr (s', r') \<Longrightarrow> \<not> torn_down_in sh r s i suit as \<Longrightarrow>
   tower_of s i suit = Some t \<Longrightarrow> is_capped t \<Longrightarrow> tower_of s' i suit = Some t"
proof (induction as arbitrary: s r)
  case Nil
  then show ?case by simp
next
  case (Cons a as)
  from Cons.prems(1) obtain ok s1 r1 where st: "step sh r s a = Inr (ok, s1, r1)"
    and rn: "run sh r1 s1 as = Inr (s', r')"
    by (auto split: sum.splits)
  from Cons.prems(2) st have na: "\<not> tears_down s i suit a"
    and nas: "\<not> torn_down_in sh r1 s1 i suit as"
    by simp_all
  from step_capped[OF st na Cons.prems(3,4)] have "tower_of s1 i suit = Some t" .
  from Cons.IH[OF rn nas this Cons.prems(4)] show ?case .
qed

lemma tower_top_caps:
  "is_tower_top c \<Longrightarrow> add_card t0 c = Inr t1 \<Longrightarrow> is_capped t1"
  by (auto simp: add_card_def is_capped_def top_card_def split: if_splits)

lemma can_place_card_capped:
  assumes "tower_of s i suit = Some t" "is_capped t"
  shows "can_place_card s (int i) c suit = Inr False"
proof -
  from assms(1) have i: "i < length (players s)" "towers (players s ! i) suit = Some t"
    by (auto simp: tower_of_def split: if_splits)
  then have g: "py_get (players s) (int i) = Inr (players s ! i)"
    by (simp add: py_get_def py_norm_def)
  show ?thesis
    using g i(2) capped_rejects[OF assms(2), of c]
    by (simp add: can_place_card_def get_tower_def)
qed

lemma run_result:
  "\<not> isl (run sh r s as) \<Longrightarrow>
   run sh r s as = Inr (fst (projr (run sh r s as)), snd (projr (run sh r s as)))"
  by (cases "run sh r s as") auto

text \<open>
  C9, as the code has it. A Tower-Top card that is added to a tower caps it. A capped
  tower rejects every card, and it stays as it is, capped, with \<open>can_place_card\<close>
  returning false for every card, through every sequence of bids, passes, placements
  and tear-downs in which that tower (the tower of that suit of that player) is not
  torn down; tear-downs of other towers, of the same suit too, and rejected tear-downs
  of the tower itself do not count. In every state in which the owner of a capped tower
  builds as the auction winner, \<open>tear_down_tower\<close> on it succeeds and leaves the tower
  empty, and the empty tower is not capped and accepts every card.
\<close>

theorem capped_until_torn_down:
  assumes "tower_of s i suit = Some t" and "is_capped t"
    and "\<not> torn_down_in sh r s i suit as"
    and "run sh r s as = Inr (s', r')"
  shows "tower_of s' i suit = Some t \<and> is_capped t \<and> (\<forall>c. \<not> can_place t c)
       \<and> (\<forall>c. can_place_card s' (int i) c suit = Inr False)
       \<and> (\<forall>c t0 t1. is_tower_top c \<and> add_card t0 c = Inr t1 \<longrightarrow> is_capped t1)
       \<and> (\<forall>s0. phase s0 = BUILDING \<and> auction_winner_index s0 = Some (int i)
                \<and> tower_of s0 i suit = Some t \<longrightarrow>
              (\<exists>s1. tear_down_tower s0 (int i) suit = Inr (True, s1)
                    \<and> tower_of s1 i suit = Some (t\<lparr>cards := []\<rparr>)))
       \<and> \<not> is_capped (t\<lparr>cards := []\<rparr>) \<and> (\<forall>c. can_place (t\<lparr>cards := []\<rparr>) c)"
proof -
  have a: "tower_of s' i suit = Some t"
    using run_capped[OF assms(4) assms(3) assms(1) assms(2)] .
  have b: "\<forall>c. \<not> can_place t c" using assms(2) by (simp add: capped_rejects)
  have c: "\<forall>c. can_place_card s' (int i) c suit = Inr False"
    using can_place_card_capped[OF a assms(2)] by simp
  have d: "\<forall>c t0 t1. is_tower_top c \<and> add_card t0 c = Inr t1 \<longrightarrow> is_capped t1"
    by (blast intro: tower_top_caps)
  have e: "\<forall>s0. phase s0 = BUILDING \<and> auction_winner_index s0 = Some (int i)
                \<and> tower_of s0 i suit = Some t \<longrightarrow>
              (\<exists>s1. tear_down_tower s0 (int i) suit = Inr (True, s1)
                    \<and> tower_of s1 i suit = Some (t\<lparr>cards := []\<rparr>))"
    using tear_down_capped[OF _ _ _ assms(2)] by blast
  have f: "\<not> is_capped (t\<lparr>cards := []\<rparr>)" "\<forall>c. can_place (t\<lparr>cards := []\<rparr>) c"
    using empty_tower_accepts[of t] by simp_all
  from a assms(2) b c d e f show ?thesis by blast
qed

theorem capped_until_torn_down_witness:
  "tower_of game_capped 0 FIRE = Some fire_capped \<and> is_capped fire_capped
   \<and> \<not> torn_down_in no_shuffle () game_capped 0 FIRE later_actions
   \<and> \<not> isl (run no_shuffle () game_capped later_actions)
   \<and> tower_of (fst (projr (run no_shuffle () game_capped later_actions))) 0 FIRE
       = Some fire_capped
   \<and> can_place_card (fst (projr (run no_shuffle () game_capped later_actions))) 0 sand14 FIRE
       = Inr False
   \<and> phase game_capped = BUILDING \<and> auction_winner_index game_capped = Some 0
   \<and> (\<exists>s1. tear_down_tower game_capped 0 FIRE = Inr (True, s1)
           \<and> tower_of s1 0 FIRE = Some (fire_capped\<lparr>cards := []\<rparr>))"
proof -
  have t: "tower_of game_capped 0 FIRE = Some fire_capped" by code_simp
  have c: "is_capped fire_capped" by code_simp
  have n: "\<not> torn_down_in no_shuffle () game_capped 0 FIRE later_actions" by code_simp
  have l: "\<not> isl (run no_shuffle () game_capped later_actions)" by code_simp
  have p: "phase game_capped = BUILDING" by code_simp
  have w: "auction_winner_index game_capped = Some (int 0)" by code_simp
  from capped_until_torn_down[OF t c n run_result[OF l]] t c n l p w
  show ?thesis by simp
qed

text \<open>
  C9 as stated fails: tearing a capped tower down is a legal action. In \<open>game_capped\<close>
  the fire tower of player 0 is capped and rejects the Wild card; after
  \<open>tear_down_tower\<close>, which succeeds, the tower is no longer capped and accepts it.
\<close>

theorem capped_tower_counterexample:
  "tower_of game_capped 0 FIRE = Some fire_capped \<and> is_capped fire_capped
   \<and> can_place_card game_capped 0 water9 FIRE = Inr False
   \<and> map_sum id fst (tear_down_tower game_capped 0 FIRE) = Inr True
   \<and> map_option is_capped (tower_of game_torn 0 FIRE) = Some False
   \<and> can_place_card game_torn 0 water9 FIRE = Inr True"
  by code_simp

subsection \<open>The auction state of a running game\<close>

lemma start_new_round_fields:
  "current_player_index (start_new_round s) = current_player_index s"
  "current_high_bid (start_new_round s) = 0"
  "auction_winner_index (start_new_round s) = None"
  "cards_to_process (start_new_round s) = cards_to_process s"
  "discard_pile (start_new_round s) = discard_pile s"
  "phase (start_new_round s) = BIDDING \<or> phase (start_new_round s) = GAME_OVER"
  by (auto simp: start_new_round_def deal_display_cards_def Let_def split: prod.splits)

lemma wf_start_new_round: "auction_wf s \<Longrightarrow> auction_wf (start_new_round s)"
  by (simp add: auction_wf_def start_new_round_fields start_new_round_players)

lemma wf_award:
  assumes "auction_wf s" "0 \<le> w" "w < int (length (players s))" "award s w = Inr s'"
  shows "auction_wf s'"
proof -
  from assms(4) obtain s2 where s': "s' = s2\<lparr>phase := BUILDING, current_player_index := w\<rparr>"
    and s2: "s2 = start_new_round (discard_display_cards (s\<lparr>auction_winner_index := Some w\<rparr>))
        \<or> (players s2 = players s \<and> current_high_bid s2 = current_high_bid s)"
    by (auto simp: award_def Let_def split: sum.splits if_splits)
  from assms(1) have "auction_wf (discard_display_cards (s\<lparr>auction_winner_index := Some w\<rparr>))"
    by (simp add: auction_wf_def discard_display_cards_def)
  then have "auction_wf (start_new_round (discard_display_cards (s\<lparr>auction_winner_index := Some w\<rparr>)))"
    by (rule wf_start_new_round)
  moreover have "length (players (start_new_round (discard_display_cards (s\<lparr>auction_winner_index := Some w\<rparr>))))
      = length (players s)"
    by (simp add: start_new_round_players discard_display_cards_def)
  ultimately show ?thesis using s2 assms(1,2,3) unfolding s'
    by (auto simp: auction_wf_def)
qed

lemma find_player_range:
  "find_player ps pid i = Inr w \<Longrightarrow> int i \<le> w \<and> w < int i + int (length ps)"
proof (induction ps arbitrary: i)
  case Nil
  then show ?case by simp
next
  case (Cons p ps)
  show ?case
  proof (cases "player_id p = pid")
    case True
    with Cons.prems show ?thesis by simp
  next
    case False
    with Cons.prems have "find_player ps pid (Suc i) = Inr w" by simp
    from Cons.IH[OF this] show ?thesis by simp
  qed
qed

lemma get_player_index_range:
  "get_player_index s pid = Inr w \<Longrightarrow> 0 \<le> w \<and> w < int (length (players s))"
  using find_player_range[of "players s" pid 0 w] by (simp add: get_player_index_def)

lemma wf_advance:
  assumes "auction_wf s" "advance_bidding_turn s = Inr s'"
  shows "auction_wf s'"
proof -
  from advance_bidding_turn_frame[OF assms(2)] obtain c where
    c: "s' = s\<lparr>current_player_index := c\<rparr>"
      "c = current_player_index s \<or> (0 \<le> c \<and> c < int (length (players s)))"
    by blast
  with assms(1) show ?thesis by (auto simp: auction_wf_def)
qed

lemma set_py_put: "set (py_put xs p v) \<subseteq> insert v (set xs)"
  by (simp add: py_put_def set_update_subset_insert)

lemma wf_put:
  assumes "auction_wf s" "case current_bid v of None \<Rightarrow> True | Some b \<Rightarrow> 1 \<le> b"
  shows "auction_wf (s\<lparr>players := py_put (players s) p v\<rparr>)"
  using assms set_py_put[of "players s" p v]
  by (auto simp: auction_wf_def)

lemma wf_bids:
  "auction_wf s \<Longrightarrow> py_get (players s) p = Inr pl \<Longrightarrow>
   (case current_bid pl of None \<Rightarrow> True | Some b \<Rightarrow> 1 \<le> b)"
  by (auto simp: auction_wf_def dest!: py_get_nth)

lemma wf_submit_bid:
  assumes "auction_wf s" "submit_bid s p a = Inr (ok, s')"
  shows "auction_wf s'"
  using assms(2)
proof (cases rule: submit_bid_cases)
  case rejected
  with assms(1) show ?thesis by simp
next
  case (accepted pl s1)
  from accepted(2) have a: "current_high_bid s < a" "current_player_index s = p"
    by (auto simp: can_bid_True)
  with assms(1) have pa: "1 \<le> a" "0 \<le> p" "p < int (length (players s))"
    by (auto simp: auction_wf_def)
  have "auction_wf (s\<lparr>players := py_put (players s) p (pl\<lparr>current_bid := Some a\<rparr>)\<rparr>)"
    by (rule wf_put[OF assms(1)]) (simp add: pa)
  then have w1: "auction_wf s1" using pa by (simp add: accepted(4) auction_wf_def)
  have len: "length (players s1) = length (players s)" by (simp add: accepted(4))
  from accepted(5) show ?thesis
  proof
    assume "end_auction s1 (Some p) = Inr s'"
    then have "award s1 p = Inr s'" by (simp add: end_auction_def)
    with w1 pa len show ?thesis by (auto intro: wf_award)
  next
    assume "advance_bidding_turn s1 = Inr s'"
    with w1 show ?thesis by (rule wf_advance)
  qed
qed

lemma wf_submit_pass:
  assumes "auction_wf s" "submit_pass s p = Inr (ok, s')"
  shows "auction_wf s'"
  using assms(2)
proof (cases rule: submit_pass_cases)
  case rejected
  with assms(1) show ?thesis by simp
next
  case (accepted pl s1)
  have "case current_bid (pl\<lparr>has_passed := True\<rparr>) of None \<Rightarrow> True | Some b \<Rightarrow> 1 \<le> b"
    using wf_bids[OF assms(1) accepted(3)] by simp
  from wf_put[OF assms(1) this] have w1: "auction_wf s1" by (simp add: accepted(4))
  from accepted(5) show ?thesis
  proof
    assume "\<exists>w. get_player_index s1 (player_id (hd (active_bidders s1))) = Inr w
            \<and> end_auction s1 (Some w) = Inr s'"
    then obtain w where w: "get_player_index s1 (player_id (hd (active_bidders s1))) = Inr w"
      "end_auction s1 (Some w) = Inr s'" by blast
    from w(2) have "award s1 w = Inr s'" by (simp add: end_auction_def)
    with w1 get_player_index_range[OF w(1)] show ?thesis by (auto intro: wf_award)
  next
    assume "advance_bidding_turn s1 = Inr s'"
    with w1 show ?thesis by (rule wf_advance)
  qed
qed

lemma wf_tear_down_tower:
  assumes "auction_wf s" "tear_down_tower s p suit = Inr (ok, s')"
  shows "auction_wf s'"
  using assms(2)
proof (cases rule: tear_down_tower_cases)
  case rejected
  with assms(1) show ?thesis by simp
next
  case (accepted pl t)
  show ?thesis unfolding accepted(6)
    by (rule wf_put[OF assms(1)]) (use wf_bids[OF assms(1) accepted(3)] in simp)
qed

lemma wf_end_building_phase:
  assumes "auction_wf s" "end_building_phase sh r s = (s', r')"
  shows "auction_wf s'"
proof -
  have rf: "auction_wf s1" if "refill_deck_from_discard sh r s = (b, s1, r1)" for b s1 r1
    using that assms(1)
    by (auto simp: refill_deck_from_discard_def shuffle_deck_def auction_wf_def
        split: if_splits prod.splits)
  from assms(2) consider s1 b r1 where "refill_deck_from_discard sh r s = (b, s1, r1)"
      "s' = s1\<lparr>phase := GAME_OVER\<rparr> \<or> s' = start_new_round s1"
    | "s' = start_new_round s"
    by (auto simp: end_building_phase_def split: if_splits prod.splits)
  then show ?thesis
  proof cases
    case 1
    from rf[OF 1(1)] have "auction_wf s1" .
    with 1(2) show ?thesis by (auto simp: wf_start_new_round) (simp add: auction_wf_def)
  next
    case 2
    with assms(1) show ?thesis by (simp add: wf_start_new_round)
  qed
qed

lemma wf_place_card:
  assumes "auction_wf s" "place_card sh r s p c suit = Inr (ok, s', r')"
  shows "auction_wf s'"
  using assms(2)
proof (cases rule: place_card_cases)
  case rejected
  with assms(1) show ?thesis by simp
next
  case (accepted pl t s2)
  have "auction_wf (s\<lparr>players := py_put (players s) p
               (pl\<lparr>towers := (towers pl)(suit \<mapsto> t\<lparr>cards := cards t @ [c]\<rparr>)\<rparr>)\<rparr>)"
    by (rule wf_put[OF assms(1)]) (use wf_bids[OF assms(1) accepted(3)] in simp)
  then have w2: "auction_wf s2" by (simp add: accepted(6) auction_wf_def)
  from accepted(7) w2 show ?thesis by (auto intro: wf_end_building_phase)
qed

lemma wf_step:
  assumes "auction_wf s" "step sh r s a = Inr (ok, s', r')"
  shows "auction_wf s'"
proof (cases a)
  case (Bid p n)
  with assms(2) obtain ok' where "submit_bid s p n = Inr (ok', s')"
    by (auto simp: keep_rng_def split: sum.splits)
  with assms(1) show ?thesis by (rule wf_submit_bid)
next
  case (Pass p)
  with assms(2) obtain ok' where "submit_pass s p = Inr (ok', s')"
    by (auto simp: keep_rng_def split: sum.splits)
  with assms(1) show ?thesis by (rule wf_submit_pass)
next
  case (Place p c su)
  with assms show ?thesis by (auto intro: wf_place_card)
next
  case (TearDown p su)
  with assms(2) obtain ok' where "tear_down_tower s p su = Inr (ok', s')"
    by (auto simp: keep_rng_def split: sum.splits)
  with assms(1) show ?thesis by (rule wf_tear_down_tower)
qed

lemma wf_run:
  "auction_wf s \<Longrightarrow> run sh r s as = Inr (s', r') \<Longrightarrow> auction_wf s'"
proof (induction as arbitrary: s r)
  case Nil
  then show ?case by simp
next
  case (Cons a as)
  from Cons.prems(2) obtain ok s1 r1 where st: "step sh r s a = Inr (ok, s1, r1)"
    and rn: "run sh r1 s1 as = Inr (s', r')"
    by (auto split: sum.splits)
  from wf_step[OF Cons.prems(1) st] have "auction_wf s1" .
  from Cons.IH[OF this rn] show ?case .
qed

lemma wf_start_game: "0 < n \<Longrightarrow> auction_wf (start_game dk n)"
  by (auto simp: start_game_def auction_wf_def new_game_state_def new_player_def
      deal_display_cards_def Let_def split: prod.splits)

lemma wf_can_bid_zero:
  assumes "auction_wf s"
  shows "can_bid s p 0 = Inr False"
proof (cases "current_player_index s = p")
  case False
  then show ?thesis by (simp add: can_bid_def)
next
  case True
  with assms have "0 \<le> p" "p < int (length (players s))" by (auto simp: auction_wf_def)
  then have "py_get (players s) p = Inr (players s ! nat p)"
    by (simp add: py_get_def py_norm_def)
  with assms show ?thesis by (simp add: can_bid_def auction_wf_def)
qed

text \<open>
  C10. In every state a game reaches (by any sequence of bids, passes, placements and
  tear-downs from a state whose high bid is not negative, whose turn pointer is the
  position of a player and whose bids, where set, are at least 1, as \<open>reset\<close> leaves
  it) the high bid is not negative, so a bid of 0 is not legal for any player:
  \<open>can_bid\<close> is false and \<open>submit_bid\<close> returns false with the state unchanged.
  Hence a player whose bid counts as 0 when an auction is resolved is one whose bid
  was never set.
\<close>

theorem zero_bid_never_legal:
  assumes "auction_wf s0" and "run sh r0 s0 as = Inr (s, r)"
  shows "0 \<le> current_high_bid s
       \<and> can_bid s p 0 = Inr False
       \<and> submit_bid s p 0 = Inr (False, s)
       \<and> (\<forall>w pl. py_get (players s) w = Inr pl
              \<and> (case current_bid pl of None \<Rightarrow> 0 | Some b \<Rightarrow> b) = 0
            \<longrightarrow> current_bid pl = None)"
proof -
  from wf_run[OF assms] have wf: "auction_wf s" .
  have a: "can_bid s p 0 = Inr False" using wf by (rule wf_can_bid_zero)
  then have b: "submit_bid s p 0 = Inr (False, s)" by (simp add: submit_bid_def)
  have c: "current_bid pl = None"
    if "py_get (players s) w = Inr pl" "(case current_bid pl of None \<Rightarrow> 0 | Some b \<Rightarrow> b) = 0"
    for w pl
    using wf_bids[OF wf that(1)] that(2) by (cases "current_bid pl") auto
  from wf a b c show ?thesis by (auto simp: auction_wf_def)
qed

theorem zero_bid_never_legal_witness:
  "auction_wf game2 \<and> \<not> isl (run no_shuffle () game2 [Bid 0 2])
   \<and> can_bid (fst (projr (run no_shuffle () game2 [Bid 0 2]))) 1 0 = Inr False
   \<and> can_bid (fst (projr (run no_shuffle () game2 [Bid 0 2]))) 1 3 = Inr True
   \<and> submit_bid (fst (projr (run no_shuffle () game2 [Bid 0 2]))) 1 0
       = Inr (False, fst (projr (run no_shuffle () game2 [Bid 0 2])))"
proof -
  have w: "auction_wf game2" by code_simp
  have l: "\<not> isl (run no_shuffle () game2 [Bid 0 2])" by code_simp
  have b: "can_bid (fst (projr (run no_shuffle () game2 [Bid 0 2]))) 1 3 = Inr True"
    by code_simp
  from zero_bid_never_legal[OF w run_result[OF l], of 1] w l b
  show ?thesis by simp
qed

subsection \<open>Conservation of cards\<close>

















lemma pending_ok_start_game: "pending_ok (start_game dk n)"
  by (auto simp: start_game_def pending_ok_def new_game_state_def deal_display_cards_def Let_def
      split: prod.splits)



text \<open>
  The same holds of the other two operations that assign a list: in a state reached by
  legal actions, recycling while the deck is not empty replaces the 7 cards of the deck
  by the 2 of the discard pile, and ending the auction again while the winner builds
  replaces the 5 cards still to be placed by an empty list.
\<close>

lemma overwriting_calls_lose_cards:
  "pending_ok game2_bid3 \<and> total_cards game2_bid3 = 12
   \<and> total_cards (fst (snd (refill_deck_from_discard no_shuffle () game2_bid3))) = 5
   \<and> pending_ok game2_won \<and> total_cards game2_won = 12
   \<and> map_sum id total_cards (end_auction game2_won (Some 0)) = Inr 7"
  by code_simp

end
